theory Spec2Isabelle
  imports Complex_Main
begin

section \<open>The date helpers of the date picker (src/datepicker/utils/date-helpers.js)\<close>

text \<open>
  The class \<open>DateHelpers<T>\<close> holds one field, the date adapter, and every method is a
  pure function of the adapter and its arguments. The embedding passes the adapter as the
  first argument of every function. A JavaScript number that counts something (a year, a
  month, seconds, milliseconds) is an \<open>int\<close>; the one quotient the source forms
  (milliseconds by \<open>864e5\<close>) is a \<open>rat\<close>, and the source only ever reads its sign.
\<close>

subsection \<open>JavaScript values the source relies on\<close>

text \<open>
  \<open>Array.prototype.reduce\<close> without an initial value throws a \<open>TypeError\<close> on an empty
  array; otherwise it folds from the left, starting with the first element.
\<close>

datatype js_error = TypeError

fun reduce :: "('a \<Rightarrow> 'a \<Rightarrow> 'a) \<Rightarrow> 'a list \<Rightarrow> js_error + 'a" where
  "reduce f [] = Inl TypeError"
| "reduce f (x # xs) = Inr (foldl f x xs)"

text \<open>
  The operands of the \<open>||\<close> and \<open>&&\<close> chains of \<open>isDayDisabled\<close> are booleans or an
  absent option (\<open>undefined\<close> or \<open>null\<close>); \<open>x || y\<close> is \<open>x\<close> when \<open>x\<close> is truthy and
  \<open>y\<close> otherwise.
\<close>

datatype jsval = JNullish | JBool bool

fun truthy :: "jsval \<Rightarrow> bool" where
  "truthy JNullish = False"
| "truthy (JBool b) = b"

definition js_or :: "jsval \<Rightarrow> jsval \<Rightarrow> jsval" where
  "js_or x y = (if truthy x then x else y)"

text \<open>
  A JavaScript \<open>Date\<close> is its time value, the milliseconds since the epoch in UTC.
  \<open>getUTCHours\<close> and \<open>getUTCMinutes\<close> are ECMAScript's \<open>HourFromTime\<close> and
  \<open>MinFromTime\<close>: the floor of the quotient, modulo 24 and 60.
\<close>

datatype JsDate = JsDate int

fun getUTCHours :: "JsDate \<Rightarrow> int" where
  "getUTCHours (JsDate t) = (t div 3600000) mod 24"

fun getUTCMinutes :: "JsDate \<Rightarrow> int" where
  "getUTCMinutes (JsDate t) = (t div 60000) mod 60"

text \<open>
  \<open>Number(s)\<close> on a string of decimal digits is the number the digits write. Every other
  string is left out of the model (\<open>None\<close>): the helpers apply \<open>Number\<close> only to a day of
  the month formatted with the pattern \<open>d\<close>.
\<close>

definition digit_val :: "char \<Rightarrow> int option" where
  "digit_val c =
     (let code = (of_char c :: nat)
      in if 48 \<le> code \<and> code \<le> 57 then Some (int code - 48) else None)"

fun digits_val :: "int \<Rightarrow> string \<Rightarrow> int option" where
  "digits_val acc [] = Some acc"
| "digits_val acc (c # cs) =
     (case digit_val c of None \<Rightarrow> None | Some v \<Rightarrow> digits_val (acc * 10 + v) cs)"

definition js_Number :: "string \<Rightarrow> int option" where
  "js_Number s = (if s = [] then None else digits_val 0 s)"

subsection \<open>The adapter and the configuration\<close>

text \<open>
  Modelled from the spec: the interface \<open>DateIOAdapter<T>\<close> of \<open>./types.js\<close> is not among
  the sources. The record has one field for each capability the helpers call, typed as
  section 3 of the specification describes it. \<open>date None\<close> is \<open>adapter.date()\<close>, the
  current date; \<open>date (Some ms)\<close> is \<open>adapter.date(ms)\<close>.
\<close>

record 'T adapter =
  getSeconds :: "'T \<Rightarrow> int"
  getMinutes :: "'T \<Rightarrow> int"
  getHours :: "'T \<Rightarrow> int"
  getMonth :: "'T \<Rightarrow> int"
  getYear :: "'T \<Rightarrow> int"
  setSeconds :: "'T \<Rightarrow> int \<Rightarrow> 'T"
  setMonth :: "'T \<Rightarrow> int \<Rightarrow> 'T"
  setYear :: "'T \<Rightarrow> int \<Rightarrow> 'T"
  addDays :: "'T \<Rightarrow> int \<Rightarrow> 'T"
  addMonths :: "'T \<Rightarrow> int \<Rightarrow> 'T"
  isBefore :: "'T \<Rightarrow> 'T \<Rightarrow> bool"
  isAfter :: "'T \<Rightarrow> 'T \<Rightarrow> bool"
  isSameDay :: "'T \<Rightarrow> 'T \<Rightarrow> bool"
  getDiff :: "'T \<Rightarrow> 'T \<Rightarrow> int"
  date :: "int option \<Rightarrow> 'T"
  toJsDate :: "'T \<Rightarrow> JsDate"
  startOfMonth :: "'T \<Rightarrow> 'T"
  mergeDateAndTime :: "'T \<Rightarrow> 'T \<Rightarrow> 'T"
  formatByString :: "'T \<Rightarrow> string \<Rightarrow> string"

text \<open>
  The configuration bag. A field that is \<open>undefined\<close> or \<open>null\<close> is \<open>None\<close>; a date and an
  array (also the empty one) are objects, hence truthy, and are \<open>Some\<close>. The empty
  configuration \<open>{}\<close>, which is also the default of a missing second argument, has every
  field \<open>None\<close>.
\<close>

record 'T config =
  minDate :: "'T option"
  maxDate :: "'T option"
  excludeDates :: "'T list option"
  includeDates :: "'T list option"
  filterDate :: "('T \<Rightarrow> bool) option"

definition emptyConfig :: "'T config" where
  "emptyConfig =
     \<lparr>minDate = None, maxDate = None, excludeDates = None, includeDates = None,
      filterDate = None\<rparr>"

subsection \<open>The helpers\<close>

definition MINUTE :: int where
  "MINUTE = 60"

definition HOUR :: int where
  "HOUR = MINUTE * 60"

definition dateToSeconds :: "'T adapter \<Rightarrow> 'T \<Rightarrow> int" where
  "dateToSeconds a d =
     (let seconds = getSeconds a d;
          minutes = getMinutes a d * MINUTE;
          hours = getHours a d * HOUR
      in seconds + minutes + hours)"

definition secondsToHourMinute :: "'T adapter \<Rightarrow> int \<Rightarrow> int \<times> int" where
  "secondsToHourMinute a seconds =
     (let d = toJsDate a (date a (Some (seconds * 1000)))
      in (getUTCHours d, getUTCMinutes d))"

definition differenceInCalendarMonths :: "'T adapter \<Rightarrow> 'T \<Rightarrow> 'T \<Rightarrow> int" where
  "differenceInCalendarMonths a fromDate toDate =
     (let yearDiff = getYear a fromDate - getYear a toDate;
          monthDiff = getMonth a fromDate - getMonth a toDate
      in yearDiff * 12 + monthDiff)"

definition differenceInCalendarDays :: "'T adapter \<Rightarrow> 'T \<Rightarrow> 'T \<Rightarrow> rat" where
  "differenceInCalendarDays a fromDate toDate =
     (let msDiff = getDiff a fromDate toDate in of_int msDiff / 86400000)"

definition subMonths :: "'T adapter \<Rightarrow> 'T \<Rightarrow> int \<Rightarrow> 'T" where
  "subMonths a d months = addMonths a d (months * (- 1))"

definition min_dates :: "'T adapter \<Rightarrow> 'T list \<Rightarrow> js_error + 'T" where
  "min_dates a dates =
     reduce (\<lambda>minDate d. if isBefore a d minDate then d else minDate) dates"

definition max_dates :: "'T adapter \<Rightarrow> 'T list \<Rightarrow> js_error + 'T" where
  "max_dates a dates =
     reduce (\<lambda>maxDate d. if isAfter a d maxDate then d else maxDate) dates"

definition getEffectiveMinDate :: "'T adapter \<Rightarrow> 'T config \<Rightarrow> js_error + 'T" where
  "getEffectiveMinDate a c =
     (case (includeDates c, minDate c) of
        (Some incl, Some mn) \<Rightarrow>
          min_dates a (filter (\<lambda>includeDate. differenceInCalendarDays a includeDate mn \<ge> 0) incl)
      | (Some incl, None) \<Rightarrow>
          (if incl \<noteq> [] then min_dates a incl else Inr (date a None))
      | (None, Some mn) \<Rightarrow> Inr mn
      | (None, None) \<Rightarrow> Inr (date a None))"

definition getEffectiveMaxDate :: "'T adapter \<Rightarrow> 'T config \<Rightarrow> js_error + 'T" where
  "getEffectiveMaxDate a c =
     (case (includeDates c, maxDate c) of
        (Some incl, Some mx) \<Rightarrow>
          max_dates a (filter (\<lambda>includeDate. differenceInCalendarDays a includeDate mx \<le> 0) incl)
      | (Some incl, None) \<Rightarrow> max_dates a incl
      | (None, Some mx) \<Rightarrow> Inr mx
      | (None, None) \<Rightarrow> Inr (date a None))"

definition monthDisabledBefore :: "'T adapter \<Rightarrow> 'T \<Rightarrow> 'T config \<Rightarrow> bool" where
  "monthDisabledBefore a day c =
     (let previousMonth = subMonths a day 1
      in (case minDate c of None \<Rightarrow> False
          | Some mn \<Rightarrow> differenceInCalendarMonths a mn previousMonth > 0)
       \<or> (case includeDates c of None \<Rightarrow> False
          | Some incl \<Rightarrow>
              list_all (\<lambda>includeDate. differenceInCalendarMonths a includeDate previousMonth > 0)
                incl)
       \<or> False)"

definition monthDisabledAfter :: "'T adapter \<Rightarrow> 'T \<Rightarrow> 'T config \<Rightarrow> bool" where
  "monthDisabledAfter a day c =
     (let nextMonth = addMonths a day 1
      in (case maxDate c of None \<Rightarrow> False
          | Some mx \<Rightarrow> differenceInCalendarMonths a nextMonth mx > 0)
       \<or> (case includeDates c of None \<Rightarrow> False
          | Some incl \<Rightarrow>
              list_all (\<lambda>includeDate. differenceInCalendarMonths a nextMonth includeDate > 0)
                incl)
       \<or> False)"

definition setDate :: "'T adapter \<Rightarrow> 'T \<Rightarrow> int \<Rightarrow> 'T" where
  "setDate a d dayNumber =
     (let startOfMonthNoTime = startOfMonth a d;
          startOfMonthHoursAndMinutes = mergeDateAndTime a startOfMonthNoTime d;
          startOfMonth' = setSeconds a startOfMonthHoursAndMinutes (getSeconds a d)
      in addDays a startOfMonth' (dayNumber - 1))"

text \<open>
  The day of the month as \<open>applyDateToTime\<close> reads it: the adapter has no getter for it,
  so the source formats the date with the pattern \<open>d\<close> and converts the string.
\<close>

definition dayOfMonth :: "'T adapter \<Rightarrow> 'T \<Rightarrow> int option" where
  "dayOfMonth a d = js_Number (formatByString a d ''d'')"

text \<open>
  \<open>applyDateToTime\<close> returns \<open>None\<close> only where \<open>Number\<close> is outside the model (the
  formatted day is not a string of digits); every result of the source on a modelled input
  is \<open>Some\<close>.
\<close>

definition applyDateToTime :: "'T adapter \<Rightarrow> 'T option \<Rightarrow> 'T \<Rightarrow> 'T option" where
  "applyDateToTime a time d =
     (case time of
        None \<Rightarrow> Some d
      | Some t \<Rightarrow>
          (let yearNumber = getYear a d;
               monthNumber = getMonth a d
           in case dayOfMonth a d of
                None \<Rightarrow> None
              | Some dayNumber \<Rightarrow>
                  (let yearDate = setYear a t yearNumber;
                       monthDate = setMonth a yearDate monthNumber
                   in Some (setDate a monthDate dayNumber))))"

definition isOutOfBounds :: "'T adapter \<Rightarrow> 'T \<Rightarrow> 'T config \<Rightarrow> bool" where
  "isOutOfBounds a day c =
     ((case minDate c of None \<Rightarrow> False | Some mn \<Rightarrow> differenceInCalendarDays a day mn < 0)
    \<or> (case maxDate c of None \<Rightarrow> False | Some mx \<Rightarrow> differenceInCalendarDays a day mx > 0))"

definition isDayDisabled :: "'T adapter \<Rightarrow> 'T \<Rightarrow> 'T config \<Rightarrow> jsval" where
  "isDayDisabled a day c =
     js_or
       (js_or
          (js_or
             (js_or (JBool (isOutOfBounds a day c))
                (case excludeDates c of None \<Rightarrow> JNullish
                 | Some ex \<Rightarrow> JBool (list_ex (\<lambda>excludeDate. isSameDay a day excludeDate) ex)))
             (case includeDates c of None \<Rightarrow> JNullish
              | Some incl \<Rightarrow>
                  JBool (\<not> list_ex (\<lambda>includeDate. isSameDay a day includeDate) incl)))
          (case filterDate c of None \<Rightarrow> JNullish | Some f \<Rightarrow> JBool (\<not> f day)))
       (JBool False)"

subsection \<open>What the helpers assume of an adapter\<close>

text \<open>
  The helpers compare dates through the adapter. An adapter compares instants when some
  time stamp \<open>ts\<close> (milliseconds, say) decides \<open>isBefore\<close> and \<open>isAfter\<close>, and measures
  instants when \<open>getDiff\<close> is the difference of the time stamps.
\<close>

definition instant_order :: "'T adapter \<Rightarrow> ('T \<Rightarrow> int) \<Rightarrow> bool" where
  "instant_order a ts \<longleftrightarrow>
     (\<forall>x y. isBefore a x y = (ts x < ts y)) \<and> (\<forall>x y. isAfter a x y = (ts y < ts x))"

definition instant_diff :: "'T adapter \<Rightarrow> ('T \<Rightarrow> int) \<Rightarrow> bool" where
  "instant_diff a ts \<longleftrightarrow> (\<forall>x y. getDiff a x y = ts x - ts y)"

text \<open>
  The adapter builds dates from epoch milliseconds in UTC when converting such a date to a
  JavaScript \<open>Date\<close> gives back the time value it was built from.
\<close>

definition utc_epoch_based :: "'T adapter \<Rightarrow> bool" where
  "utc_epoch_based a \<longleftrightarrow> (\<forall>ms. toJsDate a (date a (Some ms)) = JsDate ms)"

text \<open>
  The calendar contract \<open>setDate\<close> relies on, for the dates \<open>ok\<close> the adapter accepts and
  the month lengths \<open>mlen year month\<close>: the start of the month is the first day of the same
  month; merging takes the calendar day of the first date and the hours and minutes of the
  second (nothing is said of the seconds); setting the seconds changes the seconds only;
  adding days that stay within the month changes the day of the month only.
\<close>

definition calendar_adapter ::
  "'T adapter \<Rightarrow> ('T \<Rightarrow> bool) \<Rightarrow> (int \<Rightarrow> int \<Rightarrow> int) \<Rightarrow> bool" where
  "calendar_adapter a ok mlen \<longleftrightarrow>
     (\<forall>x. ok x \<longrightarrow> 0 \<le> getSeconds a x \<and> getSeconds a x < 60)
   \<and> (\<forall>x. ok x \<longrightarrow>
          ok (startOfMonth a x)
        \<and> getYear a (startOfMonth a x) = getYear a x
        \<and> getMonth a (startOfMonth a x) = getMonth a x
        \<and> dayOfMonth a (startOfMonth a x) = Some 1)
   \<and> (\<forall>x t. ok x \<and> ok t \<longrightarrow>
          ok (mergeDateAndTime a x t)
        \<and> getYear a (mergeDateAndTime a x t) = getYear a x
        \<and> getMonth a (mergeDateAndTime a x t) = getMonth a x
        \<and> dayOfMonth a (mergeDateAndTime a x t) = dayOfMonth a x
        \<and> getHours a (mergeDateAndTime a x t) = getHours a t
        \<and> getMinutes a (mergeDateAndTime a x t) = getMinutes a t)
   \<and> (\<forall>x s. ok x \<and> 0 \<le> s \<and> s < 60 \<longrightarrow>
          ok (setSeconds a x s)
        \<and> getYear a (setSeconds a x s) = getYear a x
        \<and> getMonth a (setSeconds a x s) = getMonth a x
        \<and> dayOfMonth a (setSeconds a x s) = dayOfMonth a x
        \<and> getHours a (setSeconds a x s) = getHours a x
        \<and> getMinutes a (setSeconds a x s) = getMinutes a x
        \<and> getSeconds a (setSeconds a x s) = s)
   \<and> (\<forall>x n k. ok x \<and> dayOfMonth a x = Some n \<and> 0 \<le> k
                \<and> n + k \<le> mlen (getYear a x) (getMonth a x) \<longrightarrow>
          getYear a (addDays a x k) = getYear a x
        \<and> getMonth a (addDays a x k) = getMonth a x
        \<and> dayOfMonth a (addDays a x k) = Some (n + k)
        \<and> getHours a (addDays a x k) = getHours a x
        \<and> getMinutes a (addDays a x k) = getMinutes a x
        \<and> getSeconds a (addDays a x k) = getSeconds a x)"

subsection \<open>A reference adapter\<close>

text \<open>
  Modelled from the spec: no adapter is among the sources (the date picker is given one by
  its caller). The reference adapter implements the capabilities of section 3 of the
  specification on civil date-times of the proleptic Gregorian calendar in UTC, with the
  conventions of the adapters the date picker is used with: months count from 0, adding
  months keeps the day of the month or takes the last day of a shorter month, merging
  takes the hours and minutes of the time, and the pattern \<open>d\<close> writes the day of the
  month in decimal without padding.
\<close>

record civil =
  c_year :: int
  c_month :: int
  c_day :: int
  c_hours :: int
  c_minutes :: int
  c_seconds :: int
  c_millis :: int

definition isLeap :: "int \<Rightarrow> bool" where
  "isLeap y \<longleftrightarrow> (y mod 4 = 0 \<and> y mod 100 \<noteq> 0) \<or> y mod 400 = 0"

definition daysInMonth :: "int \<Rightarrow> int \<Rightarrow> int" where
  "daysInMonth y m =
     (if m = 1 then (if isLeap y then 29 else 28)
      else if m = 3 \<or> m = 5 \<or> m = 8 \<or> m = 10 then 30 else 31)"

definition daysBeforeMonth :: "int \<Rightarrow> int \<Rightarrow> int" where
  "daysBeforeMonth y m =
     [0, 31, 59, 90, 120, 151, 181, 212, 243, 273, 304, 334] ! nat m
     + (if 1 < m \<and> isLeap y then 1 else 0)"

definition daysBeforeYear :: "int \<Rightarrow> int" where
  "daysBeforeYear y =
     365 * (y - 1970) + ((y - 1) div 4 - (y - 1) div 100 + (y - 1) div 400) - 477"

definition dayNumber :: "civil \<Rightarrow> int" where
  "dayNumber d = daysBeforeYear (c_year d) + daysBeforeMonth (c_year d) (c_month d) + (c_day d - 1)"

definition toMs :: "civil \<Rightarrow> int" where
  "toMs d =
     dayNumber d * 86400000 + c_hours d * 3600000 + c_minutes d * 60000
     + c_seconds d * 1000 + c_millis d"

definition valid_civil :: "civil \<Rightarrow> bool" where
  "valid_civil d \<longleftrightarrow>
     0 \<le> c_month d \<and> c_month d \<le> 11
   \<and> 1 \<le> c_day d \<and> c_day d \<le> daysInMonth (c_year d) (c_month d)
   \<and> 0 \<le> c_hours d \<and> c_hours d < 24
   \<and> 0 \<le> c_minutes d \<and> c_minutes d < 60
   \<and> 0 \<le> c_seconds d \<and> c_seconds d < 60
   \<and> 0 \<le> c_millis d \<and> c_millis d < 1000"

definition next_day :: "civil \<Rightarrow> civil" where
  "next_day d =
     (if c_day d < daysInMonth (c_year d) (c_month d) then d\<lparr>c_day := c_day d + 1\<rparr>
      else if c_month d < 11 then d\<lparr>c_month := c_month d + 1, c_day := 1\<rparr>
      else d\<lparr>c_year := c_year d + 1, c_month := 0, c_day := 1\<rparr>)"

definition prev_day :: "civil \<Rightarrow> civil" where
  "prev_day d =
     (if 1 < c_day d then d\<lparr>c_day := c_day d - 1\<rparr>
      else if 0 < c_month d
        then d\<lparr>c_month := c_month d - 1, c_day := daysInMonth (c_year d) (c_month d - 1)\<rparr>
      else d\<lparr>c_year := c_year d - 1, c_month := 11, c_day := 31\<rparr>)"

definition ref_addDays :: "civil \<Rightarrow> int \<Rightarrow> civil" where
  "ref_addDays d n = (if 0 \<le> n then (next_day ^^ nat n) d else (prev_day ^^ nat (- n)) d)"

definition ref_addMonths :: "civil \<Rightarrow> int \<Rightarrow> civil" where
  "ref_addMonths d n =
     (let total = c_year d * 12 + c_month d + n;
          y = total div 12;
          m = total mod 12
      in d\<lparr>c_year := y, c_month := m, c_day := min (c_day d) (daysInMonth y m)\<rparr>)"

definition epoch :: civil where
  "epoch =
     \<lparr>c_year = 1970, c_month = 0, c_day = 1, c_hours = 0, c_minutes = 0, c_seconds = 0,
      c_millis = 0\<rparr>"

definition fromMs :: "int \<Rightarrow> civil" where
  "fromMs ms =
     (let t = ms mod 86400000
      in (ref_addDays epoch (ms div 86400000))
           \<lparr>c_hours := t div 3600000, c_minutes := (t div 60000) mod 60,
            c_seconds := (t div 1000) mod 60, c_millis := t mod 1000\<rparr>)"

definition ref_setSeconds :: "civil \<Rightarrow> int \<Rightarrow> civil" where
  "ref_setSeconds d s =
     (if 0 \<le> s \<and> s < 60 then d\<lparr>c_seconds := s\<rparr>
      else fromMs (toMs d + (s - c_seconds d) * 1000))"

definition ref_setMonth :: "civil \<Rightarrow> int \<Rightarrow> civil" where
  "ref_setMonth d m = ref_addMonths d (m - c_month d)"

definition ref_setYear :: "civil \<Rightarrow> int \<Rightarrow> civil" where
  "ref_setYear d y =
     (if c_day d \<le> daysInMonth y (c_month d) then d\<lparr>c_year := y\<rparr>
      else d\<lparr>c_year := y, c_month := c_month d + 1, c_day := c_day d - daysInMonth y (c_month d)\<rparr>)"

fun show_nat :: "nat \<Rightarrow> string" where
  "show_nat n =
     (if n < 10 then [char_of (48 + n)] else show_nat (n div 10) @ [char_of (48 + n mod 10)])"

declare show_nat.simps [simp del]

definition ref_formatByString :: "civil \<Rightarrow> string \<Rightarrow> string" where
  "ref_formatByString d pattern = (if pattern = ''d'' then show_nat (nat (c_day d)) else pattern)"

definition refAdapter :: "civil \<Rightarrow> civil adapter" where
  "refAdapter now =
     \<lparr>getSeconds = c_seconds, getMinutes = c_minutes, getHours = c_hours,
      getMonth = c_month, getYear = c_year,
      setSeconds = ref_setSeconds, setMonth = ref_setMonth, setYear = ref_setYear,
      addDays = ref_addDays, addMonths = ref_addMonths,
      isBefore = (\<lambda>x y. toMs x < toMs y), isAfter = (\<lambda>x y. toMs y < toMs x),
      isSameDay = (\<lambda>x y. c_year x = c_year y \<and> c_month x = c_month y \<and> c_day x = c_day y),
      getDiff = (\<lambda>x y. toMs x - toMs y),
      date = (\<lambda>v. case v of None \<Rightarrow> now | Some ms \<Rightarrow> fromMs ms),
      toJsDate = (\<lambda>x. JsDate (toMs x)),
      startOfMonth = (\<lambda>x. x\<lparr>c_day := 1, c_hours := 0, c_minutes := 0, c_seconds := 0,
                               c_millis := 0\<rparr>),
      mergeDateAndTime = (\<lambda>x t. x\<lparr>c_hours := c_hours t, c_minutes := c_minutes t\<rparr>),
      formatByString = ref_formatByString\<rparr>"

text \<open>A calendar day at midnight, and a day with a time of day.\<close>

definition ymd :: "int \<Rightarrow> int \<Rightarrow> int \<Rightarrow> civil" where
  "ymd y m d =
     \<lparr>c_year = y, c_month = m - 1, c_day = d, c_hours = 0, c_minutes = 0, c_seconds = 0,
      c_millis = 0\<rparr>"

definition ymd_hms :: "int \<Rightarrow> int \<Rightarrow> int \<Rightarrow> int \<Rightarrow> int \<Rightarrow> int \<Rightarrow> civil" where
  "ymd_hms y m d h mi s =
     \<lparr>c_year = y, c_month = m - 1, c_day = d, c_hours = h, c_minutes = mi, c_seconds = s,
      c_millis = 0\<rparr>"

section \<open>Properties\<close>

subsection \<open>The left fold of \<open>min\<close> and \<open>max\<close>\<close>

lemma foldl_earliest_index:
  fixes ts :: "'a \<Rightarrow> int"
  shows "\<exists>i<length (x # xs).
           foldl (\<lambda>m d. if ts d < ts m then d else m) x xs = (x # xs) ! i
         \<and> (\<forall>j<length (x # xs). ts ((x # xs) ! i) \<le> ts ((x # xs) ! j))
         \<and> (\<forall>j<i. ts ((x # xs) ! i) < ts ((x # xs) ! j))"
proof (induction xs rule: rev_induct)
  case Nil
  show ?case by simp
next
  case (snoc y xs)
  let ?f = "\<lambda>m d. if ts d < ts m then d else m"
  define l where "l = x # xs"
  from snoc obtain i where i: "i < length l" and cur: "foldl ?f x xs = l ! i"
    and least: "\<forall>j<length l. ts (l ! i) \<le> ts (l ! j)"
    and left: "\<forall>j<i. ts (l ! i) < ts (l ! j)"
    unfolding l_def by blast
  have app: "x # (xs @ [y]) = l @ [y]" by (simp add: l_def)
  have step: "foldl ?f x (xs @ [y]) = (if ts y < ts (l ! i) then y else l ! i)"
    by (simp add: cur)
  have old: "(l @ [y]) ! j = l ! j" if "j < length l" for j
    using that by (simp add: nth_append)
  have new: "(l @ [y]) ! length l = y" by simp
  have split: "j < length l \<or> j = length l" if "j < length (l @ [y])" for j
    using that by auto
  show ?case
  proof (cases "ts y < ts (l ! i)")
    case True
    have "\<forall>j<length (l @ [y]). ts ((l @ [y]) ! length l) \<le> ts ((l @ [y]) ! j)"
    proof (intro allI impI)
      fix j assume "j < length (l @ [y])"
      then show "ts ((l @ [y]) ! length l) \<le> ts ((l @ [y]) ! j)"
        using split[of j] least True old[of j] new by force
    qed
    moreover have "\<forall>j<length l. ts ((l @ [y]) ! length l) < ts ((l @ [y]) ! j)"
      using least True old new by force
    moreover have "foldl ?f x (xs @ [y]) = (l @ [y]) ! length l"
      using True step new by simp
    moreover have "length l < length (l @ [y])" by simp
    ultimately show ?thesis
      unfolding app by blast
  next
    case False
    have "\<forall>j<length (l @ [y]). ts ((l @ [y]) ! i) \<le> ts ((l @ [y]) ! j)"
    proof (intro allI impI)
      fix j assume "j < length (l @ [y])"
      then show "ts ((l @ [y]) ! i) \<le> ts ((l @ [y]) ! j)"
        using split[of j] least False old[of j] old[of i] i new by force
    qed
    moreover have "\<forall>j<i. ts ((l @ [y]) ! i) < ts ((l @ [y]) ! j)"
      using left i old by force
    moreover have "foldl ?f x (xs @ [y]) = (l @ [y]) ! i"
      using False step old[of i] i by simp
    moreover have "i < length (l @ [y])" using i by simp
    ultimately show ?thesis
      unfolding app by blast
  qed
qed

lemma foldl_latest_index:
  fixes ts :: "'a \<Rightarrow> int"
  shows "\<exists>i<length (x # xs).
           foldl (\<lambda>m d. if ts m < ts d then d else m) x xs = (x # xs) ! i
         \<and> (\<forall>j<length (x # xs). ts ((x # xs) ! j) \<le> ts ((x # xs) ! i))
         \<and> (\<forall>j<i. ts ((x # xs) ! j) < ts ((x # xs) ! i))"
  using foldl_earliest_index [of x xs "\<lambda>d. - ts d"] by simp

lemma min_dates_earliest:
  assumes "instant_order a ts" and "dates \<noteq> []"
  shows "\<exists>i<length dates. min_dates a dates = Inr (dates ! i)
           \<and> (\<forall>j<length dates. ts (dates ! i) \<le> ts (dates ! j))
           \<and> (\<forall>j<i. ts (dates ! i) < ts (dates ! j))"
proof -
  from assms(2) obtain x xs where dates: "dates = x # xs" by (cases dates) auto
  have before: "isBefore a = (\<lambda>u v. ts u < ts v)"
    using assms(1) by (auto simp: instant_order_def fun_eq_iff)
  have "min_dates a dates = Inr (foldl (\<lambda>m d. if ts d < ts m then d else m) x xs)"
    by (simp add: min_dates_def dates before)
  then show ?thesis
    using foldl_earliest_index [of x xs ts] unfolding dates by (simp only: sum.inject)
qed

lemma max_dates_latest:
  assumes "instant_order a ts" and "dates \<noteq> []"
  shows "\<exists>i<length dates. max_dates a dates = Inr (dates ! i)
           \<and> (\<forall>j<length dates. ts (dates ! j) \<le> ts (dates ! i))
           \<and> (\<forall>j<i. ts (dates ! j) < ts (dates ! i))"
proof -
  from assms(2) obtain x xs where dates: "dates = x # xs" by (cases dates) auto
  have after: "isAfter a = (\<lambda>u v. ts v < ts u)"
    using assms(1) by (auto simp: instant_order_def fun_eq_iff)
  have "max_dates a dates = Inr (foldl (\<lambda>m d. if ts m < ts d then d else m) x xs)"
    by (simp add: max_dates_def dates after)
  then show ?thesis
    using foldl_latest_index [of x xs ts] unfolding dates by (simp only: sum.inject)
qed

subsection \<open>Facts about the reference adapter\<close>

lemma refAdapter_sel:
  "getSeconds (refAdapter now) = c_seconds"
  "getMinutes (refAdapter now) = c_minutes"
  "getHours (refAdapter now) = c_hours"
  "getMonth (refAdapter now) = c_month"
  "getYear (refAdapter now) = c_year"
  "setSeconds (refAdapter now) = ref_setSeconds"
  "addDays (refAdapter now) = ref_addDays"
  "addMonths (refAdapter now) = ref_addMonths"
  "isBefore (refAdapter now) x y = (toMs x < toMs y)"
  "isAfter (refAdapter now) x y = (toMs y < toMs x)"
  "isSameDay (refAdapter now) x y
     = (c_year x = c_year y \<and> c_month x = c_month y \<and> c_day x = c_day y)"
  "getDiff (refAdapter now) x y = toMs x - toMs y"
  "date (refAdapter now) (Some ms) = fromMs ms"
  "date (refAdapter now) None = now"
  "toJsDate (refAdapter now) x = JsDate (toMs x)"
  "startOfMonth (refAdapter now) x
     = x\<lparr>c_day := 1, c_hours := 0, c_minutes := 0, c_seconds := 0, c_millis := 0\<rparr>"
  "mergeDateAndTime (refAdapter now) x t = x\<lparr>c_hours := c_hours t, c_minutes := c_minutes t\<rparr>"
  "formatByString (refAdapter now) = ref_formatByString"
  by (simp_all add: refAdapter_def)

lemma refAdapter_instant_order: "instant_order (refAdapter now) toMs"
  by (simp add: instant_order_def refAdapter_sel)

lemma refAdapter_instant_diff: "instant_diff (refAdapter now) toMs"
  by (simp add: instant_diff_def refAdapter_sel)

lemma toMs_ymd_hms:
  "toMs (ymd_hms y m d h mi s) =
     (daysBeforeYear y + daysBeforeMonth y (m - 1) + (d - 1)) * 86400000
     + h * 3600000 + mi * 60000 + s * 1000"
  by (simp add: toMs_def dayNumber_def ymd_hms_def)

lemma toMs_ymd:
  "toMs (ymd y m d) = (daysBeforeYear y + daysBeforeMonth y (m - 1) + (d - 1)) * 86400000"
  by (simp add: toMs_def dayNumber_def ymd_def)

lemma diffDays_ref:
  "differenceInCalendarDays (refAdapter now) x y = of_int (toMs x - toMs y) / 86400000"
  by (simp add: differenceInCalendarDays_def refAdapter_sel)

text \<open>Writing a number in decimal and reading it with \<open>Number\<close> gives the number back.\<close>

lemma digits_val_append:
  "digits_val acc (xs @ ys) = (case digits_val acc xs of None \<Rightarrow> None | Some v \<Rightarrow> digits_val v ys)"
  by (induction xs arbitrary: acc) (auto split: option.splits)

lemma digit_val_char_of: "k < 10 \<Longrightarrow> digit_val (char_of (48 + k)) = Some (int k)"
  by (simp add: digit_val_def Let_def)

lemma show_nat_nonempty: "show_nat n \<noteq> []"
  by (subst show_nat.simps) simp

lemma digits_val_show_nat: "digits_val 0 (show_nat n) = Some (int n)"
proof (induction n rule: show_nat.induct)
  case (1 n)
  show ?case
  proof (cases "n < 10")
    case True
    then show ?thesis
      by (subst show_nat.simps) (simp add: digit_val_char_of)
  next
    case False
    have "n mod 10 < 10" by simp
    then have "digit_val (char_of (48 + n mod 10)) = Some (int (n mod 10))"
      by (rule digit_val_char_of)
    moreover have "digits_val 0 (show_nat (n div 10)) = Some (int (n div 10))"
      using "1" False by simp
    moreover have "int (n div 10) * 10 + int (n mod 10) = int n"
      by (simp add: zdiv_int zmod_int)
    ultimately show ?thesis
      using False by (subst show_nat.simps) (simp add: digits_val_append)
  qed
qed

lemma js_Number_show_nat: "js_Number (show_nat n) = Some (int n)"
  by (simp add: js_Number_def show_nat_nonempty digits_val_show_nat)

lemma dayOfMonth_ref: "0 \<le> c_day x \<Longrightarrow> dayOfMonth (refAdapter now) x = Some (c_day x)"
  by (simp add: dayOfMonth_def refAdapter_sel ref_formatByString_def js_Number_show_nat)

text \<open>The reference adapter keeps the calendar contract.\<close>

lemma daysInMonth_ge: "28 \<le> daysInMonth y m"
  by (simp add: daysInMonth_def)

lemma next_days_within_month:
  "c_day x + int k \<le> daysInMonth (c_year x) (c_month x)
     \<Longrightarrow> (next_day ^^ k) x = x\<lparr>c_day := c_day x + int k\<rparr>"
proof (induction k)
  case 0
  show ?case by simp
next
  case (Suc k)
  then have "(next_day ^^ Suc k) x = next_day (x\<lparr>c_day := c_day x + int k\<rparr>)" by simp
  moreover have "c_day x + int k < daysInMonth (c_year x) (c_month x)"
    using Suc.prems by simp
  then have "next_day (x\<lparr>c_day := c_day x + int k\<rparr>) = x\<lparr>c_day := c_day x + int (Suc k)\<rparr>"
    by (simp add: next_day_def add.assoc)
  ultimately show ?case by simp
qed

lemma ref_addDays_within_month:
  assumes "0 \<le> k" and "c_day x + k \<le> daysInMonth (c_year x) (c_month x)"
  shows "ref_addDays x k = x\<lparr>c_day := c_day x + k\<rparr>"
  using assms next_days_within_month [of x "nat k"] by (simp add: ref_addDays_def)

lemma refAdapter_calendar: "calendar_adapter (refAdapter now) valid_civil daysInMonth"
proof -
  have day: "dayOfMonth (refAdapter now) x = Some (c_day x)" if "valid_civil x" for x
    using that by (intro dayOfMonth_ref) (simp add: valid_civil_def)
  have v1: "valid_civil (x\<lparr>c_day := 1, c_hours := 0, c_minutes := 0, c_seconds := 0, c_millis := 0\<rparr>)"
    if "valid_civil x" for x
    using that daysInMonth_ge [of "c_year x" "c_month x"] by (simp add: valid_civil_def)
  have v2: "valid_civil (x\<lparr>c_hours := c_hours t, c_minutes := c_minutes t\<rparr>)"
    if "valid_civil x" "valid_civil t" for x t
    using that by (simp add: valid_civil_def)
  have v3: "valid_civil (x\<lparr>c_seconds := s\<rparr>)" if "valid_civil x" "0 \<le> s" "s < 60" for x s
    using that by (simp add: valid_civil_def)
  have l1: "\<forall>x. valid_civil x \<longrightarrow>
        0 \<le> getSeconds (refAdapter now) x \<and> getSeconds (refAdapter now) x < 60"
    by (simp add: refAdapter_sel valid_civil_def)
  have l2: "\<forall>x. valid_civil x \<longrightarrow>
          valid_civil (startOfMonth (refAdapter now) x)
        \<and> getYear (refAdapter now) (startOfMonth (refAdapter now) x) = getYear (refAdapter now) x
        \<and> getMonth (refAdapter now) (startOfMonth (refAdapter now) x) = getMonth (refAdapter now) x
        \<and> dayOfMonth (refAdapter now) (startOfMonth (refAdapter now) x) = Some 1"
    using v1 by (simp add: refAdapter_sel(4,5,16) day)
  have l3: "\<forall>x t. valid_civil x \<and> valid_civil t \<longrightarrow>
          valid_civil (mergeDateAndTime (refAdapter now) x t)
        \<and> getYear (refAdapter now) (mergeDateAndTime (refAdapter now) x t) = getYear (refAdapter now) x
        \<and> getMonth (refAdapter now) (mergeDateAndTime (refAdapter now) x t) = getMonth (refAdapter now) x
        \<and> dayOfMonth (refAdapter now) (mergeDateAndTime (refAdapter now) x t) = dayOfMonth (refAdapter now) x
        \<and> getHours (refAdapter now) (mergeDateAndTime (refAdapter now) x t) = getHours (refAdapter now) t
        \<and> getMinutes (refAdapter now) (mergeDateAndTime (refAdapter now) x t) = getMinutes (refAdapter now) t"
    using v2 by (simp add: refAdapter_sel(2,3,4,5,17) day)
  have l4: "\<forall>x s. valid_civil x \<and> 0 \<le> s \<and> s < 60 \<longrightarrow>
          valid_civil (setSeconds (refAdapter now) x s)
        \<and> getYear (refAdapter now) (setSeconds (refAdapter now) x s) = getYear (refAdapter now) x
        \<and> getMonth (refAdapter now) (setSeconds (refAdapter now) x s) = getMonth (refAdapter now) x
        \<and> dayOfMonth (refAdapter now) (setSeconds (refAdapter now) x s) = dayOfMonth (refAdapter now) x
        \<and> getHours (refAdapter now) (setSeconds (refAdapter now) x s) = getHours (refAdapter now) x
        \<and> getMinutes (refAdapter now) (setSeconds (refAdapter now) x s) = getMinutes (refAdapter now) x
        \<and> getSeconds (refAdapter now) (setSeconds (refAdapter now) x s) = s"
    using v3 by (simp add: refAdapter_sel(1-6) ref_setSeconds_def day)
  have l5: "\<forall>x n k. valid_civil x \<and> dayOfMonth (refAdapter now) x = Some n \<and> 0 \<le> k
                \<and> n + k \<le> daysInMonth (getYear (refAdapter now) x) (getMonth (refAdapter now) x) \<longrightarrow>
          getYear (refAdapter now) (addDays (refAdapter now) x k) = getYear (refAdapter now) x
        \<and> getMonth (refAdapter now) (addDays (refAdapter now) x k) = getMonth (refAdapter now) x
        \<and> dayOfMonth (refAdapter now) (addDays (refAdapter now) x k) = Some (n + k)
        \<and> getHours (refAdapter now) (addDays (refAdapter now) x k) = getHours (refAdapter now) x
        \<and> getMinutes (refAdapter now) (addDays (refAdapter now) x k) = getMinutes (refAdapter now) x
        \<and> getSeconds (refAdapter now) (addDays (refAdapter now) x k) = getSeconds (refAdapter now) x"
  proof (intro allI impI)
    fix x n k
    assume h: "valid_civil x \<and> dayOfMonth (refAdapter now) x = Some n \<and> 0 \<le> k
                \<and> n + k \<le> daysInMonth (getYear (refAdapter now) x) (getMonth (refAdapter now) x)"
    then have n: "n = c_day x" using day [of x] by simp
    have pos: "1 \<le> c_day x" using h by (simp add: valid_civil_def)
    have add: "ref_addDays x k = x\<lparr>c_day := c_day x + k\<rparr>"
      using h n by (intro ref_addDays_within_month) (simp_all add: refAdapter_sel)
    have "dayOfMonth (refAdapter now) (x\<lparr>c_day := c_day x + k\<rparr>) = Some (c_day x + k)"
      using h pos dayOfMonth_ref [of "x\<lparr>c_day := c_day x + k\<rparr>" now] by simp
    then show "getYear (refAdapter now) (addDays (refAdapter now) x k) = getYear (refAdapter now) x
        \<and> getMonth (refAdapter now) (addDays (refAdapter now) x k) = getMonth (refAdapter now) x
        \<and> dayOfMonth (refAdapter now) (addDays (refAdapter now) x k) = Some (n + k)
        \<and> getHours (refAdapter now) (addDays (refAdapter now) x k) = getHours (refAdapter now) x
        \<and> getMinutes (refAdapter now) (addDays (refAdapter now) x k) = getMinutes (refAdapter now) x
        \<and> getSeconds (refAdapter now) (addDays (refAdapter now) x k) = getSeconds (refAdapter now) x"
      by (simp add: refAdapter_sel(1-5,7) add n)
  qed
  show ?thesis
    unfolding calendar_adapter_def using l1 l2 l3 l4 l5 by (intro conjI)
qed

text \<open>
  Stepping a day forward or backward moves the day number by one, so a date built from
  epoch milliseconds converts back to the same milliseconds.
\<close>

lemma div_step:
  fixes y k :: int
  assumes "0 < k"
  shows "y div k = (y - 1) div k + (if y mod k = 0 then 1 else 0)"
proof (cases "y mod k = 0")
  case True
  have "y - 1 = k * (y div k - 1) + (k - 1)"
  proof -
    have "y = k * (y div k)" using True by (simp add: mod_eq_0_iff_dvd)
    then have "y - 1 = k * (y div k) - 1" by simp
    then show ?thesis by (simp add: algebra_simps)
  qed
  then have "(y - 1) div k = y div k - 1"
    using assms by (intro int_div_pos_eq [where r = "k - 1"]) simp_all
  with True show ?thesis by simp
next
  case False
  have "0 \<le> y mod k" and r2: "y mod k < k" using assms by simp_all
  with False have r: "0 < y mod k" "y mod k < k" by linarith+
  have "y - 1 = k * (y div k) + (y mod k - 1)" by simp
  then have "(y - 1) div k = y div k"
    using r by (intro int_div_pos_eq [where r = "y mod k - 1"]) simp_all
  with False show ?thesis by simp
qed

lemma mod_chain:
  fixes y :: int
  shows "y mod 400 = 0 \<Longrightarrow> y mod 100 = 0" and "y mod 100 = 0 \<Longrightarrow> y mod 4 = 0"
  using mod_mod_cancel [of 100 400 y] mod_mod_cancel [of 4 100 y] by simp_all

lemma daysBeforeYear_Suc:
  "daysBeforeYear (y + 1) = daysBeforeYear y + 365 + (if isLeap y then 1 else 0)"
proof -
  have a: "y div 4 = (y - 1) div 4 + (if y mod 4 = 0 then 1 else 0)"
    and b: "y div 100 = (y - 1) div 100 + (if y mod 100 = 0 then 1 else 0)"
    and c: "y div 400 = (y - 1) div 400 + (if y mod 400 = 0 then 1 else 0)"
    by (rule div_step, simp)+
  show ?thesis
    using mod_chain [of y]
    by (simp only: daysBeforeYear_def isLeap_def add_diff_cancel_right' a b c)
      (simp split: if_splits)
qed

lemma daysBeforeMonth_Suc:
  assumes "0 \<le> m" and "m < 11"
  shows "daysBeforeMonth y (m + 1) = daysBeforeMonth y m + daysInMonth y m"
proof -
  from assms have "m = 0 \<or> m = 1 \<or> m = 2 \<or> m = 3 \<or> m = 4 \<or> m = 5 \<or> m = 6 \<or> m = 7
      \<or> m = 8 \<or> m = 9 \<or> m = 10" by arith
  then show ?thesis
    by (elim disjE) (simp_all add: daysBeforeMonth_def daysInMonth_def)
qed

lemma daysBeforeMonth_ends:
  "daysBeforeMonth y 0 = 0"
  "daysBeforeMonth y 11 = 334 + (if isLeap y then 1 else 0)"
  by (simp_all add: daysBeforeMonth_def)

lemma valid_next_day: "valid_civil d \<Longrightarrow> valid_civil (next_day d)"
  using daysInMonth_ge [of "c_year d" "c_month d + 1"] daysInMonth_ge [of "c_year d + 1" 0]
  by (simp add: valid_civil_def next_day_def)

lemma valid_prev_day:
  assumes "valid_civil d"
  shows "valid_civil (prev_day d)"
proof -
  consider (within) "1 < c_day d" | (month) "\<not> 1 < c_day d" "0 < c_month d"
    | (year) "\<not> 1 < c_day d" "\<not> 0 < c_month d"
    by blast
  then show ?thesis
  proof cases
    case within
    then have "prev_day d = d\<lparr>c_day := c_day d - 1\<rparr>" by (simp add: prev_day_def)
    then show ?thesis using assms within by (simp add: valid_civil_def)
  next
    case month
    then have "prev_day d
        = d\<lparr>c_month := c_month d - 1, c_day := daysInMonth (c_year d) (c_month d - 1)\<rparr>"
      by (simp add: prev_day_def)
    then show ?thesis
      using assms month daysInMonth_ge [of "c_year d" "c_month d - 1"]
      by (simp add: valid_civil_def)
  next
    case year
    then have "prev_day d = d\<lparr>c_year := c_year d - 1, c_month := 11, c_day := 31\<rparr>"
      by (simp add: prev_day_def)
    moreover have "daysInMonth (c_year d - 1) 11 = 31" by (simp add: daysInMonth_def)
    ultimately show ?thesis using assms by (simp add: valid_civil_def)
  qed
qed

lemma dayNumber_next_day:
  assumes "valid_civil d"
  shows "dayNumber (next_day d) = dayNumber d + 1"
proof -
  from assms have m: "0 \<le> c_month d" "c_month d \<le> 11"
    and dy: "c_day d \<le> daysInMonth (c_year d) (c_month d)"
    by (simp_all add: valid_civil_def)
  consider (within) "c_day d < daysInMonth (c_year d) (c_month d)"
    | (month) "c_day d = daysInMonth (c_year d) (c_month d)" "c_month d < 11"
    | (year) "c_day d = daysInMonth (c_year d) (c_month d)" "c_month d = 11"
    using m dy by linarith
  then show ?thesis
  proof cases
    case within
    then show ?thesis by (simp add: next_day_def dayNumber_def)
  next
    case month
    then show ?thesis
      using daysBeforeMonth_Suc [of "c_month d" "c_year d"] m
      by (simp add: next_day_def dayNumber_def)
  next
    case year
    then show ?thesis
      by (simp add: next_day_def dayNumber_def daysBeforeYear_Suc daysBeforeMonth_ends
          daysInMonth_def)
  qed
qed

lemma dayNumber_prev_day:
  assumes "valid_civil d"
  shows "dayNumber (prev_day d) = dayNumber d - 1"
proof -
  from assms have m: "0 \<le> c_month d" "c_month d \<le> 11" and dy: "1 \<le> c_day d"
    by (simp_all add: valid_civil_def)
  consider (within) "1 < c_day d"
    | (month) "c_day d = 1" "0 < c_month d"
    | (year) "c_day d = 1" "c_month d = 0"
    using m dy by linarith
  then show ?thesis
  proof cases
    case within
    then show ?thesis by (simp add: prev_day_def dayNumber_def)
  next
    case month
    then show ?thesis
      using daysBeforeMonth_Suc [of "c_month d - 1" "c_year d"] m
      by (simp add: prev_day_def dayNumber_def)
  next
    case year
    then show ?thesis
      using daysBeforeYear_Suc [of "c_year d - 1"]
      by (simp add: prev_day_def dayNumber_def daysBeforeMonth_ends)
  qed
qed

lemma next_days_dayNumber:
  "valid_civil d \<Longrightarrow>
     valid_civil ((next_day ^^ k) d) \<and> dayNumber ((next_day ^^ k) d) = dayNumber d + int k"
  by (induction k) (simp_all add: valid_next_day dayNumber_next_day)

lemma prev_days_dayNumber:
  "valid_civil d \<Longrightarrow>
     valid_civil ((prev_day ^^ k) d) \<and> dayNumber ((prev_day ^^ k) d) = dayNumber d - int k"
  by (induction k) (simp_all add: valid_prev_day dayNumber_prev_day)

lemma ref_addDays_dayNumber:
  assumes "valid_civil d"
  shows "dayNumber (ref_addDays d n) = dayNumber d + n"
  using next_days_dayNumber [OF assms, of "nat n"] prev_days_dayNumber [OF assms, of "nat (- n)"]
  by (simp add: ref_addDays_def)

lemma valid_epoch: "valid_civil epoch"
  by (simp add: valid_civil_def epoch_def daysInMonth_def)

lemma dayNumber_epoch: "dayNumber epoch = 0"
  by (simp add: dayNumber_def epoch_def daysBeforeYear_def daysBeforeMonth_def)

lemma sixty_parts:
  fixes q a b k :: int
  shows "q = 60 * a + b \<Longrightarrow> k * 60 * a + k * b = k * q"
  by (simp add: algebra_simps)

lemma clock_parts:
  fixes t :: int
  shows "(t div 3600000) * 3600000 + ((t div 60000) mod 60) * 60000
         + ((t div 1000) mod 60) * 1000 + t mod 1000 = t"
proof -
  have a: "t div 60000 = (t div 1000) div 60" and b: "t div 3600000 = (t div 60000) div 60"
    by (simp_all add: div_mult2_eq [symmetric])
  have "60000 * 60 * ((t div 60000) div 60) + 60000 * ((t div 60000) mod 60)
      = 60000 * (t div 60000)"
    by (rule sixty_parts) simp
  then have c: "(t div 3600000) * 3600000 + ((t div 60000) mod 60) * 60000 = (t div 60000) * 60000"
    unfolding b by (simp only: mult.commute)
  have "1000 * 60 * ((t div 1000) div 60) + 1000 * ((t div 1000) mod 60) = 1000 * (t div 1000)"
    by (rule sixty_parts) simp
  then have e: "(t div 60000) * 60000 + ((t div 1000) mod 60) * 1000 = (t div 1000) * 1000"
    unfolding a by (simp only: mult.commute)
  show ?thesis unfolding c e by simp
qed

lemma toMs_fromMs: "toMs (fromMs ms) = ms"
proof -
  define t where "t = ms mod 86400000"
  have day: "dayNumber (ref_addDays epoch (ms div 86400000)) = ms div 86400000"
    by (simp add: ref_addDays_dayNumber valid_epoch dayNumber_epoch)
  have "toMs (fromMs ms) = (ms div 86400000) * 86400000
      + ((t div 3600000) * 3600000 + ((t div 60000) mod 60) * 60000
         + ((t div 1000) mod 60) * 1000 + t mod 1000)"
    using day by (simp add: toMs_def fromMs_def Let_def dayNumber_def t_def)
  also have "\<dots> = (ms div 86400000) * 86400000 + t"
    by (simp only: clock_parts)
  also have "\<dots> = ms" by (simp add: t_def)
  finally show ?thesis .
qed

lemma refAdapter_utc_epoch_based: "utc_epoch_based (refAdapter now)"
  by (simp add: utc_epoch_based_def refAdapter_sel toMs_fromMs)

subsection \<open>The claims\<close>

text \<open>
  C1, as amended: for the day 2020-03-01 and the configuration with \<open>minDate\<close> 2020-02-15
  only, \<open>monthDisabledBefore\<close> returns \<open>false\<close>, whatever the times of day: the previous
  month is February 2020, the month of \<open>minDate\<close>, so the difference in calendar months is
  0 and the test \<open>> 0\<close> fails.
\<close>

theorem monthDisabledBefore_scenario_false:
  "monthDisabledBefore (refAdapter now) (ymd_hms 2020 3 1 h mi s)
     \<lparr>minDate = Some (ymd_hms 2020 2 15 h' mi' s'), maxDate = mx, excludeDates = ex,
      includeDates = None, filterDate = f\<rparr> = False"
  by (simp add: monthDisabledBefore_def subMonths_def differenceInCalendarMonths_def
      refAdapter_sel ref_addMonths_def ymd_hms_def)

text \<open>
  C1, as stated (the result is \<open>true\<close>), fails on the scenario's own input.
\<close>

theorem monthDisabledBefore_scenario_counterexample:
  "\<not> monthDisabledBefore (refAdapter epoch) (ymd 2020 3 1)
       \<lparr>minDate = Some (ymd 2020 2 15), maxDate = None, excludeDates = None,
        includeDates = None, filterDate = None\<rparr>"
  by (simp add: monthDisabledBefore_def subMonths_def differenceInCalendarMonths_def
      refAdapter_sel ref_addMonths_def ymd_def)

text \<open>
  C2: the code at a well-formed input on which the claim fails. With \<open>minDate\<close> 2020-01-10
  and \<open>includeDates\<close> 2020-01-05 only, no include-date passes the filter of
  \<open>getEffectiveMinDate\<close>, \<open>min\<close> reduces the empty array and the call throws a
  \<open>TypeError\<close>; \<open>getEffectiveMaxDate\<close> does the same with \<open>maxDate\<close> 2020-01-10 and
  \<open>includeDates\<close> 2020-01-15 only.
\<close>

theorem getEffective_empty_filter_TypeError:
  "getEffectiveMinDate (refAdapter epoch)
     \<lparr>minDate = Some (ymd 2020 1 10), maxDate = None, excludeDates = None,
      includeDates = Some [ymd 2020 1 5], filterDate = None\<rparr> = Inl TypeError
   \<and> getEffectiveMaxDate (refAdapter epoch)
     \<lparr>minDate = None, maxDate = Some (ymd 2020 1 10), excludeDates = None,
      includeDates = Some [ymd 2020 1 15], filterDate = None\<rparr> = Inl TypeError"
  by (simp add: getEffectiveMinDate_def getEffectiveMaxDate_def diffDays_ref toMs_ymd
      daysBeforeYear_def daysBeforeMonth_def isLeap_def min_dates_def max_dates_def)

text \<open>
  C3: for an adapter that compares and measures instants by one time stamp \<open>ts\<close>, when
  \<open>minDate\<close> and \<open>includeDates\<close> are both given and some include-date is on or after
  \<open>minDate\<close> (its time stamp is not below that of \<open>minDate\<close>), \<open>getEffectiveMinDate\<close>
  returns an include-date on or after \<open>minDate\<close> whose time stamp is the least among the
  include-dates on or after \<open>minDate\<close>. On the reference adapter, \<open>minDate\<close> 2020-01-10
  and \<open>includeDates\<close> 2020-01-05, 2020-01-15, 2020-01-20 give 2020-01-15.
\<close>

theorem getEffectiveMinDate_both_given:
  assumes "instant_order a ts" and "instant_diff a ts"
    and "\<exists>d\<in>set incl. ts mn \<le> ts d"
  shows "(\<exists>v. getEffectiveMinDate a
               \<lparr>minDate = Some mn, maxDate = mx, excludeDates = ex, includeDates = Some incl,
                filterDate = f\<rparr> = Inr v
            \<and> v \<in> set incl \<and> ts mn \<le> ts v
            \<and> (\<forall>d\<in>set incl. ts mn \<le> ts d \<longrightarrow> ts v \<le> ts d))
       \<and> getEffectiveMinDate (refAdapter now)
            \<lparr>minDate = Some (ymd 2020 1 10), maxDate = mx', excludeDates = ex',
             includeDates = Some [ymd 2020 1 5, ymd 2020 1 15, ymd 2020 1 20],
             filterDate = f'\<rparr> = Inr (ymd 2020 1 15)"
proof
  have test: "(0 \<le> differenceInCalendarDays a d mn) = (ts mn \<le> ts d)" for d
    using assms(2)
    by (simp add: differenceInCalendarDays_def instant_diff_def zero_le_divide_iff)
  define keep where "keep = filter (\<lambda>d. 0 \<le> differenceInCalendarDays a d mn) incl"
  have keep: "set keep = {d \<in> set incl. ts mn \<le> ts d}"
    by (auto simp: keep_def test)
  have ne: "keep \<noteq> []"
    using assms(3) keep by (cases keep) auto
  from min_dates_earliest [OF assms(1) ne]
  obtain i where i: "i < length keep" and v: "min_dates a keep = Inr (keep ! i)"
    and least: "\<forall>j<length keep. ts (keep ! i) \<le> ts (keep ! j)"
    by blast
  have mem: "keep ! i \<in> set keep" using i by simp
  have low: "ts (keep ! i) \<le> ts d" if "d \<in> set keep" for d
    using that least by (auto simp: in_set_conv_nth)
  have res: "getEffectiveMinDate a
               \<lparr>minDate = Some mn, maxDate = mx, excludeDates = ex, includeDates = Some incl,
                filterDate = f\<rparr> = Inr (keep ! i)"
    using v by (simp add: getEffectiveMinDate_def keep_def)
  show "\<exists>v. getEffectiveMinDate a
               \<lparr>minDate = Some mn, maxDate = mx, excludeDates = ex, includeDates = Some incl,
                filterDate = f\<rparr> = Inr v
            \<and> v \<in> set incl \<and> ts mn \<le> ts v
            \<and> (\<forall>d\<in>set incl. ts mn \<le> ts d \<longrightarrow> ts v \<le> ts d)"
    using res mem low unfolding keep by (intro exI[of _ "keep ! i"]) simp
next
  show "getEffectiveMinDate (refAdapter now)
            \<lparr>minDate = Some (ymd 2020 1 10), maxDate = mx', excludeDates = ex',
             includeDates = Some [ymd 2020 1 5, ymd 2020 1 15, ymd 2020 1 20],
             filterDate = f'\<rparr> = Inr (ymd 2020 1 15)"
    by (simp add: getEffectiveMinDate_def diffDays_ref toMs_ymd daysBeforeYear_def
        daysBeforeMonth_def isLeap_def min_dates_def refAdapter_sel)
qed

theorem getEffectiveMinDate_both_given_witness:
  "instant_order (refAdapter epoch) toMs
   \<and> instant_diff (refAdapter epoch) toMs
   \<and> (\<exists>d\<in>set [ymd 2020 1 5, ymd 2020 1 10, ymd 2020 1 20].
         toMs (ymd 2020 1 10) \<le> toMs d)
   \<and> (\<exists>v. getEffectiveMinDate (refAdapter epoch)
              \<lparr>minDate = Some (ymd 2020 1 10), maxDate = None, excludeDates = None,
               includeDates = Some [ymd 2020 1 5, ymd 2020 1 10, ymd 2020 1 20],
               filterDate = None\<rparr> = Inr v
          \<and> v \<in> set [ymd 2020 1 5, ymd 2020 1 10, ymd 2020 1 20]
          \<and> toMs v = toMs (ymd 2020 1 10))"
proof -
  have h1: "instant_order (refAdapter epoch) toMs" by (rule refAdapter_instant_order)
  have h2: "instant_diff (refAdapter epoch) toMs" by (rule refAdapter_instant_diff)
  have h3: "\<exists>d\<in>set [ymd 2020 1 5, ymd 2020 1 10, ymd 2020 1 20].
         toMs (ymd 2020 1 10) \<le> toMs d"
    by simp
  have "ymd 2020 1 10 \<in> set [ymd 2020 1 5, ymd 2020 1 10, ymd 2020 1 20]" by simp
  then show ?thesis
    using h1 h2 h3
      getEffectiveMinDate_both_given [OF h1 h2 h3, where mx = None and ex = None and f = None]
    by (meson order_antisym order_refl)
qed

text \<open>
  C4, as amended: for an adapter whose difference measures instants, \<open>isOutOfBounds\<close> is
  true if and only if the day is strictly before \<open>minDate\<close> or strictly after \<open>maxDate\<close>
  as an instant (the time of day counts); with \<open>minDate = maxDate = d\<close> it is false for a
  day at the instant of \<open>d\<close> and true for a day at any other instant.
\<close>

theorem isOutOfBounds_instants:
  assumes "instant_diff a ts"
  shows "isOutOfBounds a day c
           = ((\<exists>mn. minDate c = Some mn \<and> ts day < ts mn)
            \<or> (\<exists>mx. maxDate c = Some mx \<and> ts mx < ts day))
       \<and> isOutOfBounds a day
           \<lparr>minDate = Some d, maxDate = Some d, excludeDates = ex, includeDates = incl,
            filterDate = f\<rparr> = (ts day \<noteq> ts d)"
proof -
  have sgn: "(differenceInCalendarDays a x y < 0) = (ts x < ts y)"
       "(0 < differenceInCalendarDays a x y) = (ts y < ts x)" for x y
    using assms by (simp_all add: differenceInCalendarDays_def instant_diff_def
        divide_less_0_iff zero_less_divide_iff)
  show ?thesis
    by (auto simp: isOutOfBounds_def sgn split: option.splits)
qed

theorem isOutOfBounds_instants_witness:
  "instant_diff (refAdapter epoch) toMs
   \<and> isOutOfBounds (refAdapter epoch) (ymd 2020 1 9)
       \<lparr>minDate = Some (ymd 2020 1 10), maxDate = Some (ymd 2020 1 10), excludeDates = None,
        includeDates = None, filterDate = None\<rparr>
   \<and> \<not> isOutOfBounds (refAdapter epoch) (ymd 2020 1 10)
       \<lparr>minDate = Some (ymd 2020 1 10), maxDate = Some (ymd 2020 1 10), excludeDates = None,
        includeDates = None, filterDate = None\<rparr>"
proof -
  have h: "instant_diff (refAdapter epoch) toMs" by (rule refAdapter_instant_diff)
  have ne: "toMs (ymd 2020 1 9) \<noteq> toMs (ymd 2020 1 10)"
    by (simp add: toMs_ymd)
  show ?thesis
    using h ne isOutOfBounds_instants [OF h, of "ymd 2020 1 9" emptyConfig "ymd 2020 1 10" None None None]
      isOutOfBounds_instants [OF h, of "ymd 2020 1 10" emptyConfig "ymd 2020 1 10" None None None]
    by simp
qed

text \<open>
  C4, as stated (calendar-day granularity), fails: 2020-01-10 08:00 is on the calendar day
  of the bound 2020-01-10 12:00 and is out of bounds.
\<close>

theorem isOutOfBounds_same_day_counterexample:
  "isSameDay (refAdapter epoch) (ymd_hms 2020 1 10 8 0 0) (ymd_hms 2020 1 10 12 0 0)
   \<and> isOutOfBounds (refAdapter epoch) (ymd_hms 2020 1 10 8 0 0)
       \<lparr>minDate = Some (ymd_hms 2020 1 10 12 0 0), maxDate = Some (ymd_hms 2020 1 10 12 0 0),
        excludeDates = None, includeDates = None, filterDate = None\<rparr>"
  by (simp add: isOutOfBounds_def diffDays_ref toMs_ymd_hms)
     (simp add: refAdapter_sel ymd_hms_def)

text \<open>
  C5: for an adapter that keeps the calendar contract, every date it accepts and every
  \<open>dayNumber\<close> from 1 to the number of days of the date's month, the day of the month of
  \<open>setDate(date, dayNumber)\<close>, read through the adapter, is \<open>dayNumber\<close>, and its month,
  year, hours, minutes and seconds are those of \<open>date\<close>.
\<close>

theorem setDate_keeps_month_and_time:
  assumes "calendar_adapter a ok mlen"
    and "ok d"
    and "1 \<le> n" and "n \<le> mlen (getYear a d) (getMonth a d)"
  shows "dayOfMonth a (setDate a d n) = Some n
       \<and> getMonth a (setDate a d n) = getMonth a d
       \<and> getYear a (setDate a d n) = getYear a d
       \<and> getHours a (setDate a d n) = getHours a d
       \<and> getMinutes a (setDate a d n) = getMinutes a d
       \<and> getSeconds a (setDate a d n) = getSeconds a d"
proof -
  define s0 where "s0 = startOfMonth a d"
  define s1 where "s1 = mergeDateAndTime a s0 d"
  define s2 where "s2 = setSeconds a s1 (getSeconds a d)"
  have res: "setDate a d n = addDays a s2 (n - 1)"
    by (simp add: setDate_def s0_def s1_def s2_def)
  from assms(1) have sec: "0 \<le> getSeconds a d \<and> getSeconds a d < 60"
    using assms(2) by (simp add: calendar_adapter_def)
  from assms(1) assms(2) have p0: "ok s0" "getYear a s0 = getYear a d"
      "getMonth a s0 = getMonth a d" "dayOfMonth a s0 = Some 1"
    unfolding s0_def calendar_adapter_def by blast+
  from assms(1) p0(1) assms(2) have p1: "ok s1" "getYear a s1 = getYear a s0"
      "getMonth a s1 = getMonth a s0" "dayOfMonth a s1 = dayOfMonth a s0"
      "getHours a s1 = getHours a d" "getMinutes a s1 = getMinutes a d"
    unfolding s1_def calendar_adapter_def by blast+
  from assms(1) p1(1) sec have p2: "ok s2" "getYear a s2 = getYear a s1"
      "getMonth a s2 = getMonth a s1" "dayOfMonth a s2 = dayOfMonth a s1"
      "getHours a s2 = getHours a s1" "getMinutes a s2 = getMinutes a s1"
      "getSeconds a s2 = getSeconds a d"
    unfolding s2_def calendar_adapter_def by blast+
  have day: "dayOfMonth a s2 = Some 1" and ym: "getYear a s2 = getYear a d" "getMonth a s2 = getMonth a d"
    using p0 p1 p2 by simp_all
  have fit: "0 \<le> n - 1" "1 + (n - 1) \<le> mlen (getYear a s2) (getMonth a s2)"
    using assms(3,4) ym by simp_all
  from assms(1) have add: "\<And>x m k. ok x \<Longrightarrow> dayOfMonth a x = Some m \<Longrightarrow> 0 \<le> k
       \<Longrightarrow> m + k \<le> mlen (getYear a x) (getMonth a x)
       \<Longrightarrow> getYear a (addDays a x k) = getYear a x
         \<and> getMonth a (addDays a x k) = getMonth a x
         \<and> dayOfMonth a (addDays a x k) = Some (m + k)
         \<and> getHours a (addDays a x k) = getHours a x
         \<and> getMinutes a (addDays a x k) = getMinutes a x
         \<and> getSeconds a (addDays a x k) = getSeconds a x"
    unfolding calendar_adapter_def by blast
  from add [OF p2(1) day fit] show ?thesis
    unfolding res using p0 p1 p2 by simp
qed

theorem setDate_keeps_month_and_time_witness:
  "calendar_adapter (refAdapter epoch) valid_civil daysInMonth
   \<and> valid_civil (ymd_hms 2020 2 10 13 45 30)
   \<and> (1::int) \<le> 29
   \<and> 29 \<le> daysInMonth (getYear (refAdapter epoch) (ymd_hms 2020 2 10 13 45 30))
               (getMonth (refAdapter epoch) (ymd_hms 2020 2 10 13 45 30))
   \<and> dayOfMonth (refAdapter epoch) (setDate (refAdapter epoch) (ymd_hms 2020 2 10 13 45 30) 29)
       = Some 29
   \<and> getMonth (refAdapter epoch) (setDate (refAdapter epoch) (ymd_hms 2020 2 10 13 45 30) 29) = 1
   \<and> getYear (refAdapter epoch) (setDate (refAdapter epoch) (ymd_hms 2020 2 10 13 45 30) 29)
       = 2020
   \<and> getHours (refAdapter epoch) (setDate (refAdapter epoch) (ymd_hms 2020 2 10 13 45 30) 29)
       = 13
   \<and> getMinutes (refAdapter epoch) (setDate (refAdapter epoch) (ymd_hms 2020 2 10 13 45 30) 29)
       = 45
   \<and> getSeconds (refAdapter epoch) (setDate (refAdapter epoch) (ymd_hms 2020 2 10 13 45 30) 29)
       = 30"
proof -
  have h1: "calendar_adapter (refAdapter epoch) valid_civil daysInMonth"
    by (rule refAdapter_calendar)
  have h2: "valid_civil (ymd_hms 2020 2 10 13 45 30)"
    by (simp add: valid_civil_def ymd_hms_def daysInMonth_def isLeap_def)
  have h3: "(1::int) \<le> 29" by simp
  have h4: "29 \<le> daysInMonth (getYear (refAdapter epoch) (ymd_hms 2020 2 10 13 45 30))
               (getMonth (refAdapter epoch) (ymd_hms 2020 2 10 13 45 30))"
    by (simp add: refAdapter_sel ymd_hms_def daysInMonth_def isLeap_def)
  show ?thesis
    using h1 h2 h4 setDate_keeps_month_and_time [OF h1 h2 h3 h4]
    by (simp add: refAdapter_sel(1-5) ymd_hms_def)
qed

text \<open>
  C6: for an adapter that compares instants and every non-empty list of dates, \<open>min\<close>
  returns an element of the list that is not after any element of the list, and every
  element to its left is strictly later, so among equally early elements it is the
  leftmost; \<open>max\<close> is the same with is-after and is-before exchanged.
\<close>

theorem min_max_leftmost:
  assumes "instant_order a ts" and "dates \<noteq> []"
  shows "(\<exists>i<length dates. min_dates a dates = Inr (dates ! i)
            \<and> (\<forall>j<length dates. \<not> isAfter a (dates ! i) (dates ! j))
            \<and> (\<forall>j<i. isBefore a (dates ! i) (dates ! j)))
       \<and> (\<exists>i<length dates. max_dates a dates = Inr (dates ! i)
            \<and> (\<forall>j<length dates. \<not> isBefore a (dates ! i) (dates ! j))
            \<and> (\<forall>j<i. isAfter a (dates ! i) (dates ! j)))"
proof -
  have before: "isBefore a = (\<lambda>u v. ts u < ts v)" and after: "isAfter a = (\<lambda>u v. ts v < ts u)"
    using assms(1) by (auto simp: instant_order_def fun_eq_iff)
  show ?thesis
    using min_dates_earliest [OF assms] max_dates_latest [OF assms]
    unfolding before after by (simp only: not_less)
qed

theorem min_max_leftmost_witness:
  "instant_order (refAdapter epoch) toMs
   \<and> [ymd 2020 1 20, ymd 2020 1 5, ymd 2020 1 15] \<noteq> []
   \<and> (\<exists>i<length [ymd 2020 1 20, ymd 2020 1 5, ymd 2020 1 15].
         min_dates (refAdapter epoch) [ymd 2020 1 20, ymd 2020 1 5, ymd 2020 1 15]
           = Inr ([ymd 2020 1 20, ymd 2020 1 5, ymd 2020 1 15] ! i))
   \<and> (\<exists>i<length [ymd 2020 1 20, ymd 2020 1 5, ymd 2020 1 15].
         max_dates (refAdapter epoch) [ymd 2020 1 20, ymd 2020 1 5, ymd 2020 1 15]
           = Inr ([ymd 2020 1 20, ymd 2020 1 5, ymd 2020 1 15] ! i))"
proof -
  have h1: "instant_order (refAdapter epoch) toMs" by (rule refAdapter_instant_order)
  have h2: "[ymd 2020 1 20, ymd 2020 1 5, ymd 2020 1 15] \<noteq> []" by simp
  show ?thesis using h1 h2 min_max_leftmost [OF h1 h2] by blast
qed

lemma seconds_arith:
  fixes h m :: int
  assumes "0 \<le> h" "h < 24" "0 \<le> m" "m < 60"
  shows "((m * 60 + h * 3600) * 1000 div 3600000) mod 24 = h"
    and "((m * 60 + h * 3600) * 1000 div 60000) mod 60 = m"
proof -
  have e: "(m * 60 + h * 3600) * 1000 = m * 60000 + h * 3600000" by simp
  have "(m * 60000 + h * 3600000) div 3600000 = h"
    using assms by (simp add: div_pos_pos_trivial)
  then show "((m * 60 + h * 3600) * 1000 div 3600000) mod 24 = h"
    using assms by (simp add: e)
  have "m * 60000 + h * 3600000 = (m + h * 60) * 60000" by simp
  then have "(m * 60000 + h * 3600000) div 60000 = m + h * 60" by simp
  then show "((m * 60 + h * 3600) * 1000 div 60000) mod 60 = m"
    using assms by (simp add: e)
qed

text \<open>
  C7: for an adapter that builds dates from UTC epoch milliseconds and a date with zero
  seconds (and hours and minutes of a clock), \<open>secondsToHourMinute(dateToSeconds(d))\<close> is
  the pair of the hours and the minutes of \<open>d\<close>.
\<close>

theorem seconds_roundtrip:
  assumes "utc_epoch_based a"
    and "getSeconds a d = 0"
    and "0 \<le> getHours a d" and "getHours a d < 24"
    and "0 \<le> getMinutes a d" and "getMinutes a d < 60"
  shows "secondsToHourMinute a (dateToSeconds a d) = (getHours a d, getMinutes a d)"
proof -
  have s: "dateToSeconds a d = getMinutes a d * 60 + getHours a d * 3600"
    using assms(2) by (simp add: dateToSeconds_def MINUTE_def HOUR_def)
  have "toJsDate a (date a (Some (dateToSeconds a d * 1000))) = JsDate (dateToSeconds a d * 1000)"
    using assms(1) by (simp add: utc_epoch_based_def)
  then show ?thesis
    using seconds_arith [OF assms(3-6)] by (simp add: secondsToHourMinute_def s)
qed

theorem seconds_roundtrip_witness:
  "utc_epoch_based (refAdapter epoch)
   \<and> getSeconds (refAdapter epoch) (ymd_hms 2020 2 10 13 45 0) = 0
   \<and> 0 \<le> getHours (refAdapter epoch) (ymd_hms 2020 2 10 13 45 0)
   \<and> getHours (refAdapter epoch) (ymd_hms 2020 2 10 13 45 0) < 24
   \<and> 0 \<le> getMinutes (refAdapter epoch) (ymd_hms 2020 2 10 13 45 0)
   \<and> getMinutes (refAdapter epoch) (ymd_hms 2020 2 10 13 45 0) < 60
   \<and> secondsToHourMinute (refAdapter epoch)
        (dateToSeconds (refAdapter epoch) (ymd_hms 2020 2 10 13 45 0)) = (13, 45)"
proof -
  have h1: "utc_epoch_based (refAdapter epoch)" by (rule refAdapter_utc_epoch_based)
  have h2: "getSeconds (refAdapter epoch) (ymd_hms 2020 2 10 13 45 0) = 0"
    and h3: "0 \<le> getHours (refAdapter epoch) (ymd_hms 2020 2 10 13 45 0)"
    and h4: "getHours (refAdapter epoch) (ymd_hms 2020 2 10 13 45 0) < 24"
    and h5: "0 \<le> getMinutes (refAdapter epoch) (ymd_hms 2020 2 10 13 45 0)"
    and h6: "getMinutes (refAdapter epoch) (ymd_hms 2020 2 10 13 45 0) < 60"
    by (simp_all add: refAdapter_sel ymd_hms_def)
  show ?thesis
    using h1 seconds_roundtrip [OF h1 h2 h3 h4 h5 h6]
    by (simp add: refAdapter_sel(1-3) ymd_hms_def)
qed

text \<open>
  C8: \<open>applyDateToTime\<close> is the identity on its date argument when no time is given: for
  every adapter and every date, \<open>applyDateToTime(undefined, date)\<close> returns \<open>date\<close> itself.
\<close>

theorem applyDateToTime_no_time: "applyDateToTime a None d = Some d"
  by (simp add: applyDateToTime_def)

text \<open>
  C9: when neither the bound nor an \<open>includeDates\<close> list is supplied,
  \<open>getEffectiveMinDate\<close> and \<open>getEffectiveMaxDate\<close> raise nothing and return the adapter's
  current date, \<open>adapter.date()\<close>.
\<close>

theorem getEffective_fallback_now:
  "getEffectiveMinDate a
     \<lparr>minDate = None, maxDate = mx, excludeDates = ex, includeDates = None, filterDate = f\<rparr>
     = Inr (date a None)
   \<and> getEffectiveMaxDate a
     \<lparr>minDate = mn, maxDate = None, excludeDates = ex', includeDates = None, filterDate = f'\<rparr>
     = Inr (date a None)"
  by (simp add: getEffectiveMinDate_def getEffectiveMaxDate_def)

text \<open>
  C10: with the empty configuration no day is disabled or out of bounds: for every adapter
  and every day, \<open>isDayDisabled(day, {})\<close> is the boolean \<open>false\<close> (the trailing
  \<open>|| false\<close> turns the absent operands into a boolean), and \<open>isOutOfBounds(day, {})\<close> is
  \<open>false\<close>.
\<close>

theorem empty_config_never_disabled:
  "isDayDisabled a day emptyConfig = JBool False \<and> isOutOfBounds a day emptyConfig = False"
  by (simp add: isDayDisabled_def isOutOfBounds_def emptyConfig_def js_or_def)

end
